theory Spec2Isabelle
  imports Complex_Main "HOL-Library.Log_Nat"
begin

section \<open>JavaScript numbers\<close>

text \<open>
  A JavaScript Number is an IEEE 754 binary64 value. The finite values are rationals, so a
  number is modelled as one of the three special values, the negative zero, or a rational;
  \<open>Fin 0\<close> is the positive zero. Every arithmetic operation computes the exact rational
  result and rounds it to the nearest binary64 value, ties to even (\<open>round_double\<close>).
\<close>

datatype jsnum = NaN | PInf | NInf | NZero | Fin rat

text \<open>Rounding a rational to the nearest integer, ties to the even one.\<close>

definition rte :: "rat \<Rightarrow> int" where
  "rte x = (let f = \<lfloor>x\<rfloor>; d = x - of_int f in
            if d < 1 / 2 then f else if 1 / 2 < d then f + 1
            else if even f then f else f + 1)"

text \<open>The binary exponent of a positive rational: \<open>2 powi expo q \<le> q < 2 powi (expo q + 1)\<close>.\<close>

definition expo :: "rat \<Rightarrow> int" where
  "expo q = (if 1 \<le> q then bitlen \<lfloor>q\<rfloor> - 1 else - bitlen (\<lceil>1 / q\<rceil> - 1))"

text \<open>
  Rounding a positive rational: 53 significant bits, exponents from \<open>-1022\<close> (below it the
  spacing stays that of the subnormal numbers), overflow to infinity from \<open>2 ^ 1024\<close> on.
\<close>

definition round_pos :: "rat \<Rightarrow> jsnum" where
  "round_pos q = (let e = max (expo q) (- 1022); u = 2 powi (e - 52);
                      y = of_int (rte (q / u)) * u
                  in if 2 ^ 1024 \<le> y then PInf else Fin y)"

fun jneg :: "jsnum \<Rightarrow> jsnum" where
  "jneg NaN = NaN"
| "jneg PInf = NInf"
| "jneg NInf = PInf"
| "jneg NZero = Fin 0"
| "jneg (Fin q) = (if q = 0 then NZero else Fin (- q))"

definition round_double :: "rat \<Rightarrow> jsnum" where
  "round_double q = (if q = 0 then Fin 0 else if 0 < q then round_pos q
                     else jneg (round_pos (- q)))"

fun is_neg :: "jsnum \<Rightarrow> bool" where
  "is_neg NInf = True"
| "is_neg NZero = True"
| "is_neg (Fin q) = (q < 0)"
| "is_neg _ = False"

fun is_zero :: "jsnum \<Rightarrow> bool" where
  "is_zero NZero = True"
| "is_zero (Fin q) = (q = 0)"
| "is_zero _ = False"

fun is_inf :: "jsnum \<Rightarrow> bool" where
  "is_inf PInf = True"
| "is_inf NInf = True"
| "is_inf _ = False"

fun rat_of :: "jsnum \<Rightarrow> rat" where
  "rat_of (Fin q) = q"
| "rat_of _ = 0"

text \<open>A finite Number: a rational or the negative zero.\<close>

fun is_fin :: "jsnum \<Rightarrow> bool" where
  "is_fin (Fin q) = True"
| "is_fin NZero = True"
| "is_fin _ = False"

definition with_sign :: "bool \<Rightarrow> jsnum \<Rightarrow> jsnum" where
  "with_sign n x = (if n then jneg x else x)"

text \<open>The operator \<open>*\<close> on two numbers.\<close>

definition js_mul :: "jsnum \<Rightarrow> jsnum \<Rightarrow> jsnum" where
  "js_mul a b =
     (if a = NaN \<or> b = NaN then NaN
      else if is_inf a \<or> is_inf b then
        (if is_zero a \<or> is_zero b then NaN else with_sign (is_neg a \<noteq> is_neg b) PInf)
      else if is_zero a \<or> is_zero b then with_sign (is_neg a \<noteq> is_neg b) (Fin 0)
      else round_double (rat_of a * rat_of b))"

text \<open>The operator \<open>/\<close> on two numbers.\<close>

definition js_div :: "jsnum \<Rightarrow> jsnum \<Rightarrow> jsnum" where
  "js_div a b =
     (if a = NaN \<or> b = NaN then NaN
      else if is_inf a then (if is_inf b then NaN else with_sign (is_neg a \<noteq> is_neg b) PInf)
      else if is_inf b then with_sign (is_neg a \<noteq> is_neg b) (Fin 0)
      else if is_zero b then (if is_zero a then NaN else with_sign (is_neg a \<noteq> is_neg b) PInf)
      else if is_zero a then with_sign (is_neg a \<noteq> is_neg b) (Fin 0)
      else round_double (rat_of a / rat_of b))"

text \<open>The operator \<open>+\<close> on two numbers. An exact sum of zero is the positive zero unless both
  operands are the negative zero.\<close>

definition js_add :: "jsnum \<Rightarrow> jsnum \<Rightarrow> jsnum" where
  "js_add a b =
     (if a = NaN \<or> b = NaN then NaN
      else if is_inf a then (if is_inf b \<and> a \<noteq> b then NaN else a)
      else if is_inf b then b
      else if a = NZero \<and> b = NZero then NZero
      else round_double (rat_of a + rat_of b))"

text \<open>The comparison \<open>a <= b\<close>: false as soon as an operand is NaN; the two zeros are equal.\<close>

definition js_le :: "jsnum \<Rightarrow> jsnum \<Rightarrow> bool" where
  "js_le a b =
     (if a = NaN \<or> b = NaN then False
      else if a = NInf \<or> b = PInf then True
      else if a = PInf \<or> b = NInf then False
      else rat_of a \<le> rat_of b)"

text \<open>\<open>Math.min\<close> of two numbers: NaN if one is NaN; the negative zero is below the positive.\<close>

definition Math_min :: "jsnum \<Rightarrow> jsnum \<Rightarrow> jsnum" where
  "Math_min a b =
     (if a = NaN \<or> b = NaN then NaN
      else if is_zero a \<and> is_zero b then (if a = NZero \<or> b = NZero then NZero else Fin 0)
      else if js_le a b then a else b)"

definition Number_isNaN :: "jsnum \<Rightarrow> bool" where
  "Number_isNaN x = (x = NaN)"

text \<open>A number is falsy when it is a zero or NaN.\<close>

definition num_truthy :: "jsnum \<Rightarrow> bool" where
  "num_truthy x = (\<not> is_zero x \<and> x \<noteq> NaN)"

subsection \<open>\<open>toFixed(2)\<close> and \<open>Number\<close> of its result\<close>

text \<open>
  The strings \<open>x.toFixed(2)\<close> returns, by what they denote: \<open>"NaN"\<close>, \<open>"Infinity"\<close>,
  \<open>"-Infinity"\<close>, a decimal with two fraction digits (its sign and its value in hundredths),
  or, from \<open>10 ^ 21\<close> on, the digits of \<open>String(x)\<close>, which denote \<open>x\<close> itself.
\<close>

datatype numstr = StrNaN | StrInfinity | StrNegInfinity | StrFixed bool int | StrDigits rat

text \<open>\<open>Number.prototype.toFixed\<close> with two fraction digits: the integer \<open>n\<close> with \<open>n / 100\<close>
  nearest to the absolute value, the larger one of two; a minus sign when the number is below
  zero (the negative zero is not).\<close>

definition toFixed2 :: "jsnum \<Rightarrow> numstr" where
  "toFixed2 x =
     (case x of
        NaN \<Rightarrow> StrNaN
      | PInf \<Rightarrow> StrInfinity
      | NInf \<Rightarrow> StrNegInfinity
      | NZero \<Rightarrow> StrFixed False 0
      | Fin q \<Rightarrow> if 10 ^ 21 \<le> \<bar>q\<bar> then StrDigits q
                 else StrFixed (q < 0) \<lfloor>\<bar>q\<bar> * 100 + 1 / 2\<rfloor>)"

text \<open>\<open>Number(s)\<close> on such a string: the nearest binary64 value of what it denotes.\<close>

definition Number_of :: "numstr \<Rightarrow> jsnum" where
  "Number_of s =
     (case s of
        StrNaN \<Rightarrow> NaN
      | StrInfinity \<Rightarrow> PInf
      | StrNegInfinity \<Rightarrow> NInf
      | StrFixed neg n \<Rightarrow> with_sign neg (round_double (of_int n / 100))
      | StrDigits q \<Rightarrow> round_double q)"

section \<open>The trips calculator\<close>

subsection \<open>Reading a rate\<close>

text \<open>
  \<open>EMISSION_RATES[vehicle]\<close> reads a property of an object literal: an own property if there
  is one, otherwise a property inherited from \<open>Object.prototype\<close> (a function, or for
  \<open>__proto__\<close> the prototype object), otherwise \<open>undefined\<close>.
\<close>

datatype propval = Undefined | NumVal jsnum | Builtin

definition EMISSION_RATES :: "(string \<times> jsnum) list" where
  "EMISSION_RATES =
     [(''car'', round_double (21 / 100)), (''motorbike'', round_double (10 / 100)),
      (''bus'', round_double (5 / 100)), (''bicycle'', Fin 0)]"

definition Object_prototype :: "string list" where
  "Object_prototype =
     [''constructor'', ''hasOwnProperty'', ''isPrototypeOf'', ''propertyIsEnumerable'',
      ''toLocaleString'', ''toString'', ''valueOf'', ''__proto__'',
      ''__defineGetter__'', ''__defineSetter__'', ''__lookupGetter__'', ''__lookupSetter__'']"

definition get_prop :: "(string \<times> jsnum) list \<Rightarrow> string \<Rightarrow> propval" where
  "get_prop obj k =
     (case map_of obj k of
        Some x \<Rightarrow> NumVal x
      | None \<Rightarrow> if k \<in> set Object_prototype then Builtin else Undefined)"

fun truthy :: "propval \<Rightarrow> bool" where
  "truthy Undefined = False"
| "truthy (NumVal x) = num_truthy x"
| "truthy Builtin = True"

text \<open>\<open>v || 0\<close>\<close>

definition or_zero :: "propval \<Rightarrow> propval" where
  "or_zero v = (if truthy v then v else NumVal (Fin 0))"

text \<open>The conversion \<open>*\<close> applies to its operand: a built-in function or object converts to a
  string that is no numeric literal, hence to NaN.\<close>

fun ToNumber :: "propval \<Rightarrow> jsnum" where
  "ToNumber Undefined = NaN"
| "ToNumber (NumVal x) = x"
| "ToNumber Builtin = NaN"

subsection \<open>Trips, storage and state\<close>

text \<open>The numeric fields of a trip hold a number, or \<open>null\<close> once \<open>JSON\<close> has stored a
  value it cannot write.\<close>

datatype jsval = Null | Num jsnum

record trip =
  trip_date :: string
  trip_vehicle :: string
  trip_distance :: jsval
  trip_emissions :: jsval

text \<open>A number in a \<open>JSON\<close> text is finite; \<open>JSON.stringify\<close> writes \<open>null\<close> for NaN and the
  infinities, and \<open>0\<close> for the negative zero.\<close>

datatype jnum = JNull | JNum rat

record jtrip =
  jdate :: string
  jvehicle :: string
  jdistance :: jnum
  jemissions :: jnum

fun stringify_val :: "jsval \<Rightarrow> jnum" where
  "stringify_val Null = JNull"
| "stringify_val (Num NaN) = JNull"
| "stringify_val (Num PInf) = JNull"
| "stringify_val (Num NInf) = JNull"
| "stringify_val (Num NZero) = JNum 0"
| "stringify_val (Num (Fin q)) = JNum q"

fun parse_val :: "jnum \<Rightarrow> jsval" where
  "parse_val JNull = Null"
| "parse_val (JNum q) = Num (Fin q)"

definition stringify_trip :: "trip \<Rightarrow> jtrip" where
  "stringify_trip t =
     \<lparr>jdate = trip_date t, jvehicle = trip_vehicle t,
      jdistance = stringify_val (trip_distance t), jemissions = stringify_val (trip_emissions t)\<rparr>"

definition parse_trip :: "jtrip \<Rightarrow> trip" where
  "parse_trip j =
     \<lparr>trip_date = jdate j, trip_vehicle = jvehicle j,
      trip_distance = parse_val (jdistance j), trip_emissions = parse_val (jemissions j)\<rparr>"

text \<open>
  What local storage holds under \<open>STORAGE_KEY\<close>: nothing, a text that is not \<open>JSON\<close>, or the
  text of an array of trips. The key is written by \<open>persist\<close> only, so a stored array is one
  that \<open>JSON.stringify\<close> wrote; it is kept by what it denotes. A \<open>JSON\<close> text of another
  shape, which only another program can have written, is outside this type.
\<close>

datatype stored = Absent | Unparseable | Stored "jtrip list"

definition JSON_stringify :: "trip list \<Rightarrow> stored" where
  "JSON_stringify ts = Stored (map stringify_trip ts)"

text \<open>
  \<open>try { trips = JSON.parse(localStorage.getItem(STORAGE_KEY)) || []; } catch (e) { trips = []; }\<close>
  For an absent key \<open>getItem\<close> is \<open>null\<close>, which parses to \<open>null\<close>, and \<open>null || []\<close> is the
  empty array; a text that does not parse throws into the \<open>catch\<close>; an array is truthy.
\<close>

definition load :: "stored \<Rightarrow> trip list" where
  "load st = (case st of Absent \<Rightarrow> [] | Unparseable \<Rightarrow> [] | Stored js \<Rightarrow> map parse_trip js)"

text \<open>\<open>x || 0\<close> and \<open>Number(x)\<close> on the value of a numeric field.\<close>

fun val_or_zero :: "jsval \<Rightarrow> jsval" where
  "val_or_zero Null = Num (Fin 0)"
| "val_or_zero (Num x) = (if num_truthy x then Num x else Num (Fin 0))"

fun Number_val :: "jsval \<Rightarrow> jsnum" where
  "Number_val Null = Fin 0"
| "Number_val (Num x) = x"

text \<open>
  The state of the calculator: the two variables \<open>trips\<close> and \<open>totalEmissions\<close>, the stored
  value, and the two page elements the claims are about: the rows of \<open>tripTable\<close> (each row
  shows one trip) and the width of \<open>progressBar\<close> in percent. \<open>None\<close> is an element the
  page does not have. The statistics, the result texts and the chart are written from the
  same two variables and read by nothing; they are left out, and so is \<open>updateIndexStats\<close>.
\<close>

record calc =
  trips :: "trip list"
  totalEmissions :: jsnum
  storage :: stored
  tripTable :: "trip list option"
  progressBar :: "jsnum option"

text \<open>\<open>persist\<close>; the write \<open>localStorage.setItem\<close> is taken to succeed.\<close>

definition persist :: "calc \<Rightarrow> calc" where
  "persist s = s\<lparr>storage := JSON_stringify (trips s)\<rparr>"

definition renderTable :: "calc \<Rightarrow> calc" where
  "renderTable s = (case tripTable s of None \<Rightarrow> s | Some _ \<Rightarrow> s\<lparr>tripTable := Some (rev (trips s))\<rparr>)"

definition percent_of :: "jsnum \<Rightarrow> jsnum" where
  "percent_of t = Math_min (js_mul (js_div t (Fin 50)) (Fin 100)) (Fin 100)"

definition updateProgress :: "calc \<Rightarrow> calc" where
  "updateProgress s =
     (case progressBar s of None \<Rightarrow> s
      | Some _ \<Rightarrow> s\<lparr>progressBar := Some (percent_of (totalEmissions s))\<rparr>)"

text \<open>\<open>trips.reduce((s, t) => s + Number(t.emissions || 0), 0)\<close>\<close>

definition reduce_emissions :: "trip list \<Rightarrow> jsnum" where
  "reduce_emissions ts =
     foldl (\<lambda>s t. js_add s (Number_val (val_or_zero (trip_emissions t)))) (Fin 0) ts"

text \<open>The start of the calculator from the stored value, on a page that has or has not the
  table and the progress bar.\<close>

definition calculator :: "stored \<Rightarrow> bool \<Rightarrow> bool \<Rightarrow> calc" where
  "calculator st hasTable hasBar =
     (let trips0 = load st;
          s = \<lparr>trips = trips0, totalEmissions = reduce_emissions trips0, storage = st,
               tripTable = (if hasTable then Some [] else None),
               progressBar = (if hasBar then Some (Fin 0) else None)\<rparr>
      in updateProgress (renderTable s))"

text \<open>\<open>addTrip(vehicle, distance)\<close>; \<open>today\<close> is \<open>new Date().toLocaleDateString()\<close>.\<close>

definition addTrip :: "string \<Rightarrow> string \<Rightarrow> jsnum \<Rightarrow> calc \<Rightarrow> calc" where
  "addTrip today vehicle distance s =
     (let rate = or_zero (get_prop EMISSION_RATES vehicle);
          emissions = Number_of (toFixed2 (js_mul distance (ToNumber rate)));
          t = \<lparr>trip_date = today, trip_vehicle = vehicle,
               trip_distance = Num distance, trip_emissions = Num emissions\<rparr>;
          s1 = s\<lparr>trips := trips s @ [t]\<rparr>;
          s2 = s1\<lparr>totalEmissions := js_add (totalEmissions s1) emissions\<rparr>
      in updateProgress (renderTable (persist s2)))"

text \<open>
  The submit handler of the form. \<open>vehicle\<close> is the value of the field \<open>#vehicle\<close>
  (\<open>None\<close> when the form has no such field), \<open>distance\<close> is \<open>Number(distanceStr)\<close>.
\<close>

definition submit :: "string \<Rightarrow> string option \<Rightarrow> jsnum \<Rightarrow> calc \<Rightarrow> calc" where
  "submit today vehicle distance s =
     (case vehicle of
        None \<Rightarrow> s
      | Some v \<Rightarrow>
          if v = [] \<or> Number_isNaN distance \<or> js_le distance (Fin 0) then s
          else addTrip today v distance s)"

definition clearTrips :: "calc \<Rightarrow> calc" where
  "clearTrips s =
     updateProgress (renderTable (persist (s\<lparr>trips := [], totalEmissions := Fin 0\<rparr>)))"

subsection \<open>What the specification calls the sum, the rate and a storable list\<close>

text \<open>The sum of the \<open>emissions\<close> fields of a list of trips, added from the left with the
  operator \<open>+\<close> as the running total is; a field that is \<open>null\<close> counts as zero.\<close>

definition sum_emissions :: "trip list \<Rightarrow> jsnum" where
  "sum_emissions ts = foldl (\<lambda>s t. js_add s (Number_val (trip_emissions t))) (Fin 0) ts"







text \<open>The rate of the specification: the factor of each of the four known kinds, and zero for
  every other kind.\<close>

definition rate :: "string \<Rightarrow> jsnum" where
  "rate vehicle =
     (if vehicle = ''car'' then round_double (21 / 100)
      else if vehicle = ''motorbike'' then round_double (10 / 100)
      else if vehicle = ''bus'' then round_double (5 / 100)
      else Fin 0)"

text \<open>Rounding to two decimals, as \<open>addTrip\<close> does it: \<open>Number(x.toFixed(2))\<close>.\<close>

definition round2 :: "jsnum \<Rightarrow> jsnum" where
  "round2 x = Number_of (toFixed2 x)"



section \<open>The debug interface over a store of arrays\<close>

text \<open>
  The state above identifies the array \<open>trips\<close> with its elements. That is sound as long as
  no other reference to the array exists, and \<open>getTrips\<close> is the one function that hands
  the list out. Here the arrays and the trip objects live in a store, a reference is an
  index, and the variable \<open>trips\<close> holds a reference.
\<close>

record store =
  objs :: "trip list"
  arrs :: "nat list list"
  tripsRef :: nat
  totalVar :: jsnum

text \<open>The trips the variable \<open>trips\<close> denotes.\<close>

definition trips_of :: "store \<Rightarrow> trip list" where
  "trips_of st = map (\<lambda>i. objs st ! i) (arrs st ! tripsRef st)"

text \<open>\<open>getTrips: () => trips.slice()\<close>: a new array with the same elements; the result is its
  reference. A reference outside the store does not occur and gives \<open>None\<close>.\<close>

definition getTrips :: "store \<Rightarrow> (nat \<times> store) option" where
  "getTrips st =
     (if tripsRef st < length (arrs st)
      then Some (length (arrs st), st\<lparr>arrs := arrs st @ [arrs st ! tripsRef st]\<rparr>)
      else None)"

text \<open>What a caller can do to an array it holds: \<open>a.push(x)\<close>, \<open>a.length = 0\<close>, and in general
  any replacement of its elements.\<close>

definition array_write :: "nat \<Rightarrow> nat list \<Rightarrow> store \<Rightarrow> store" where
  "array_write r xs st = st\<lparr>arrs := (arrs st)[r := xs]\<rparr>"

definition array_push :: "nat \<Rightarrow> nat \<Rightarrow> store \<Rightarrow> store" where
  "array_push r x st = array_write r (arrs st ! r @ [x]) st"

definition array_clear :: "nat \<Rightarrow> store \<Rightarrow> store" where
  "array_clear r st = array_write r [] st"

text \<open>What the calculator itself does to the store: \<open>trips.push(trip)\<close> creates the trip
  object and appends its reference to the array \<open>trips\<close> refers to; \<open>trips = []\<close> in
  \<open>clearTrips\<close> creates an empty array and makes \<open>trips\<close> refer to it.\<close>

definition push_trip :: "trip \<Rightarrow> store \<Rightarrow> store" where
  "push_trip t st =
     st\<lparr>objs := objs st @ [t],
        arrs := (arrs st)[tripsRef st := arrs st ! tripsRef st @ [length (objs st)]]\<rparr>"

definition reset_trips :: "store \<Rightarrow> store" where
  "reset_trips st =
     st\<lparr>arrs := arrs st @ [[]], tripsRef := length (arrs st), totalVar := Fin 0\<rparr>"

text \<open>A store without dangling references.\<close>

definition store_ok :: "store \<Rightarrow> bool" where
  "store_ok st = (tripsRef st < length (arrs st)
                  \<and> list_all (list_all (\<lambda>i. i < length (objs st))) (arrs st))"

text \<open>A write to a field of the trip object \<open>i\<close>, which replaces the object's content.\<close>

definition object_write :: "nat \<Rightarrow> trip \<Rightarrow> store \<Rightarrow> store" where
  "object_write i t st = st\<lparr>objs := (objs st)[i := t]\<rparr>"

section \<open>The hero carousel\<close>

text \<open>
  The slide index is an integer-valued Number below the number of slides, and \<open>goTo\<close> is
  called with integer-valued Numbers; on these \<open>%\<close> and \<open>+\<close> are exact, so they are modelled
  on \<open>int\<close>. The remainder \<open>n % d\<close> takes the sign of \<open>n\<close>.
\<close>

definition js_rem :: "int \<Rightarrow> int \<Rightarrow> int" where
  "js_rem n d = sgn n * (\<bar>n\<bar> mod \<bar>d\<bar>)"

datatype js_error = TypeError

record carousel =
  current :: int
  count :: nat

text \<open>
  \<open>goTo(n)\<close>. With no slide, \<open>n % 0\<close> is NaN and \<open>slides[NaN].querySelector\<close> throws.
\<close>

definition goTo :: "int \<Rightarrow> carousel \<Rightarrow> js_error + carousel" where
  "goTo n c =
     (if count c = 0 then Inl TypeError
      else Inr (c\<lparr>current := js_rem (js_rem n (int (count c)) + int (count c)) (int (count c))\<rparr>))"

definition next_slide :: "carousel \<Rightarrow> js_error + carousel" where
  "next_slide c = goTo (current c + 1) c"

definition prev_slide :: "carousel \<Rightarrow> js_error + carousel" where
  "prev_slide c = goTo (current c - 1) c"

text \<open>The start: \<open>let current = 0; const count = slides.length; ... goTo(0)\<close>.\<close>

definition heroCarousel :: "nat \<Rightarrow> js_error + carousel" where
  "heroCarousel n = goTo 0 \<lparr>current = 0, count = n\<rparr>"

section \<open>Properties of the rounding\<close>

text \<open>The exponent \<open>expo\<close> brackets its argument between two powers of two, rounding to an
  integer is monotone against integers, and a rounded value is not below an integer that the
  exact value is not below.\<close>

lemma rte_of_int: "rte (of_int n) = n"
  by (simp add: rte_def)

lemma rte_ge: "of_int n \<le> x \<Longrightarrow> n \<le> rte x"
proof -
  assume "of_int n \<le> x"
  then have "n \<le> \<lfloor>x\<rfloor>" by (simp add: le_floor_iff)
  then show ?thesis by (auto simp: rte_def Let_def)
qed

lemma rte_le: "x \<le> of_int n \<Longrightarrow> rte x \<le> n"
proof -
  assume a: "x \<le> of_int n"
  show ?thesis
  proof (cases "x = of_int n")
    case True then show ?thesis by (simp add: rte_of_int)
  next
    case False
    with a have "x < of_int n" by simp
    then have "\<lfloor>x\<rfloor> < n" by (simp add: floor_less_iff)
    then show ?thesis by (auto simp: rte_def Let_def)
  qed
qed

lemma expo_bounds:
  assumes "0 < q"
  shows "2 powi expo q \<le> q \<and> q < 2 powi (expo q + 1)"
proof (cases "1 \<le> q")
  case True
  define n where "n = \<lfloor>q\<rfloor>"
  have n1: "1 \<le> n" using True by (simp add: n_def le_floor_iff)
  then have n0: "0 < n" by simp
  have bl: "1 \<le> bitlen n" using n0 by (simp add: bitlen_alt_def)
  from bitlen_bounds[OF n0] have lo: "2 ^ nat (bitlen n - 1) \<le> n" and hi: "n < 2 ^ nat (bitlen n)"
    by simp_all
  have e: "expo q = bitlen n - 1" using True by (simp add: expo_def n_def)
  have "(2::rat) powi (bitlen n - 1) = 2 ^ nat (bitlen n - 1)"
    using bl by (simp add: power_int_def)
  also have "\<dots> \<le> of_int n" using lo by (simp only: numeral_power_le_of_int_cancel_iff)
  also have "\<dots> \<le> q" by (simp add: n_def)
  finally have A: "2 powi expo q \<le> q" by (simp add: e)
  have "n + 1 \<le> 2 ^ nat (bitlen n)" using hi by simp
  then have "(of_int (n + 1) :: rat) \<le> 2 ^ nat (bitlen n)"
    by (simp only: of_int_le_numeral_power_cancel_iff)
  moreover have "q < of_int (n + 1)" using floor_correct[of q] by (simp add: n_def)
  ultimately have "q < 2 ^ nat (bitlen n)" by (rule less_le_trans[rotated])
  moreover have "(2::rat) powi (bitlen n - 1 + 1) = 2 ^ nat (bitlen n)"
    using bl by (simp add: power_int_def)
  ultimately have B: "q < 2 powi (expo q + 1)" by (simp add: e)
  from A B show ?thesis ..
next
  case False
  define r where "r = 1 / q"
  define c where "c = \<lceil>r\<rceil>"
  have r1: "1 < r" using False assms by (simp add: r_def)
  have c2: "2 \<le> c" using r1 by (simp add: c_def le_ceiling_iff)
  then have c0: "0 < c - 1" by simp
  define k where "k = bitlen (c - 1)"
  have k1: "1 \<le> k" using c0 by (simp add: k_def bitlen_alt_def)
  from bitlen_bounds[OF c0] have lo: "2 ^ nat (k - 1) \<le> c - 1" and hi: "c - 1 < 2 ^ nat k"
    by (simp_all add: k_def)
  have e: "expo q = - k" using False by (simp add: expo_def k_def c_def r_def)
  have "c \<le> 2 ^ nat k" using hi by simp
  then have "(of_int c :: rat) \<le> 2 ^ nat k" by simp
  moreover have "r \<le> of_int c" by (simp add: c_def)
  ultimately have rk: "r \<le> 2 ^ nat k" by (rule order_trans[rotated])
  have "(2 ^ nat (k - 1) :: rat) \<le> of_int (c - 1)"
    using lo by (simp only: numeral_power_le_of_int_cancel_iff)
  moreover have "of_int (c - 1) < r" using ceiling_correct[of r] by (simp add: c_def)
  ultimately have kr: "2 ^ nat (k - 1) < r" by (rule le_less_trans)
  have q_eq: "q = 1 / r" using assms by (simp add: r_def)
  have r0: "0 < r" using r1 by simp
  have p1: "(2::rat) powi (- k) = 1 / 2 ^ nat k"
    using k1 by (simp add: power_int_def field_simps)
  have p2: "(2::rat) powi (- k + 1) = 1 / 2 ^ nat (k - 1)"
    using k1 by (simp add: power_int_def field_simps nat_diff_distrib)
  have "1 / 2 ^ nat k \<le> 1 / r" using rk r0 by (simp add: frac_le)
  then have A: "2 powi expo q \<le> q" by (simp only: e p1 q_eq[symmetric])
  have "1 / r < 1 / 2 ^ nat (k - 1)" using kr r0 by (simp add: frac_less2)
  then have B: "q < 2 powi (expo q + 1)" by (simp only: e p2 q_eq[symmetric])
  from A B show ?thesis ..
qed

lemma expo_unique:
  assumes "0 < q" "2 powi e \<le> q" "q < 2 powi (e + 1)"
  shows "expo q = e"
proof -
  from expo_bounds[OF assms(1)] have a: "2 powi expo q \<le> q" and b: "q < 2 powi (expo q + 1)"
    by simp_all
  have "\<not> e < expo q"
  proof
    assume "e < expo q"
    then have "e + 1 \<le> expo q" by simp
    then have "(2::rat) powi (e + 1) \<le> 2 powi expo q" by (simp add: power_int_increasing)
    with a assms(3) show False by simp
  qed
  moreover have "\<not> expo q < e"
  proof
    assume "expo q < e"
    then have "expo q + 1 \<le> e" by simp
    then have "(2::rat) powi (expo q + 1) \<le> 2 powi e" by (simp add: power_int_increasing)
    with b assms(2) show False by simp
  qed
  ultimately show ?thesis by simp
qed

lemma round_pos_eval:
  assumes "0 < q" "2 powi e \<le> q" "q < 2 powi (e + 1)" "- 1022 \<le> e"
  shows "round_pos q =
           (if (2::rat) ^ 1024 \<le> of_int (rte (q / 2 powi (e - 52))) * 2 powi (e - 52) then PInf
            else Fin (of_int (rte (q / 2 powi (e - 52))) * 2 powi (e - 52)))"
proof -
  have "expo q = e" using assms(1-3) by (rule expo_unique)
  then show ?thesis using assms(4) by (simp add: round_pos_def Let_def max_def)
qed

lemma round_pos_eqI:
  assumes "0 < q" "2 powi e \<le> q" "q < 2 powi (e + 1)" "- 1022 \<le> e"
    and "rte (q / 2 powi (e - 52)) = m" "of_int m * 2 powi (e - 52) = y" "y < 2 ^ 1024"
  shows "round_pos q = Fin y"
  using assms(5-7) by (simp add: round_pos_eval[OF assms(1-4)])

lemma floor_rat_numeral_div: "\<lfloor>numeral a / numeral b :: rat\<rfloor> = numeral a div numeral b"
  by (metis floor_divide_of_int_eq of_int_numeral)

lemmas dbl_eval = power_int_def power_divide rte_def Let_def floor_rat_numeral_div

text \<open>The rounding is to a nearest value: the error is at most half the spacing at the
  exponent of the argument; and a value with 53 significant bits and an exponent in range is
  its own rounding.\<close>

lemma rte_nearest: "\<bar>of_int (rte x) - x\<bar> \<le> 1 / 2"
proof -
  have "of_int \<lfloor>x\<rfloor> \<le> x" "x < of_int \<lfloor>x\<rfloor> + 1" using floor_correct[of x] by simp_all
  then show ?thesis by (auto simp: rte_def Let_def abs_le_iff)
qed

lemma round_pos_error:
  assumes "0 < q" "round_pos q = Fin y"
  shows "\<bar>y - q\<bar> \<le> 2 powi (max (expo q) (- 1022) - 53)"
proof -
  define u where "u = (2::rat) powi (max (expo q) (- 1022) - 52)"
  have u0: "0 < u" by (simp add: u_def)
  have y: "y = of_int (rte (q / u)) * u"
    using assms(2) by (simp add: round_pos_def Let_def u_def split: if_splits)
  have "\<bar>of_int (rte (q / u)) - q / u\<bar> \<le> 1 / 2" by (rule rte_nearest)
  then have "\<bar>of_int (rte (q / u)) - q / u\<bar> * u \<le> 1 / 2 * u"
    using u0 by (simp only: mult_le_cancel_right_pos)
  moreover have "\<bar>of_int (rte (q / u)) - q / u\<bar> * u = \<bar>y - q\<bar>"
  proof -
    have "\<bar>of_int (rte (q / u)) - q / u\<bar> * u = \<bar>(of_int (rte (q / u)) - q / u) * u\<bar>"
      using u0 by (simp add: abs_mult)
    also have "(of_int (rte (q / u)) - q / u) * u = y - q"
      using u0 by (simp add: y left_diff_distrib)
    finally show ?thesis .
  qed
  moreover have "1 / 2 * u = 2 powi (max (expo q) (- 1022) - 53)"
    by (simp add: u_def power_int_diff)
  ultimately show ?thesis by simp
qed

lemma round_pos_exact:
  assumes m: "2 ^ 52 \<le> m" "m < 2 ^ 53" and e: "- 1022 \<le> e" "e \<le> 1023"
  shows "round_pos (of_int m * 2 powi (e - 52)) = Fin (of_int m * 2 powi (e - 52))"
proof (rule round_pos_eqI[where e=e and m=m])
  let ?u = "(2::rat) powi (e - 52)"
  have u0: "0 < ?u" by simp
  have "(0::int) < 2 ^ 52" by simp
  then have m0: "0 < m" using m(1) by (rule less_le_trans)
  show "0 < of_int m * ?u" using m0 u0 by simp
  have "(2::rat) powi e = 2 ^ 52 * ?u" by (simp add: power_int_diff)
  also have "\<dots> \<le> of_int m * ?u" using m(1) u0 by simp
  finally show "2 powi e \<le> of_int m * ?u" .
  have "of_int m * ?u < 2 ^ 53 * ?u" using m(2) u0 by simp
  also have "\<dots> = 2 powi (e + 1)" by (simp add: power_int_diff power_int_add)
  finally show "of_int m * ?u < 2 powi (e + 1)" .
  show "- 1022 \<le> e" by fact
  show "rte (of_int m * ?u / ?u) = m" by (simp add: rte_of_int)
  show "of_int m * ?u = of_int m * ?u" ..
  have "(2::rat) powi (e + 1) \<le> 2 powi 1024" using e(2) by (simp only: power_int_increasing[of _ _ 2])
  then show "of_int m * ?u < 2 ^ 1024"
    using \<open>of_int m * ?u < 2 ^ 53 * ?u\<close> \<open>2 ^ 53 * ?u = 2 powi (e + 1)\<close> by (simp add: power_int_def)
qed

lemma rate_car: "round_double (21 / 100) = Fin (7566047373982433 / 36028797018963968)"
proof -
  have "round_pos (21 / 100) = Fin (7566047373982433 / 36028797018963968)"
    by (rule round_pos_eqI[where e="- 3" and m=7566047373982433])
       (simp_all add: dbl_eval)
  then show ?thesis by (simp add: round_double_def)
qed

lemma expo_nonneg:
  assumes "1 \<le> q"
  shows "0 \<le> expo q"
proof (rule ccontr)
  assume "\<not> 0 \<le> expo q"
  then have "expo q + 1 \<le> 0" by simp
  then have "(2::rat) powi (expo q + 1) \<le> 2 powi 0" by (simp only: power_int_increasing[of _ _ 2])
  moreover have "q < 2 powi (expo q + 1)" using expo_bounds[of q] assms by simp
  ultimately show False using assms by simp
qed

lemma round_pos_ge:
  assumes q1: "1 \<le> q" and cq: "of_int c \<le> q" and c0: "0 < c" and c53: "c \<le> 2 ^ 53"
  shows "round_pos q = PInf \<or> (\<exists>y. round_pos q = Fin y \<and> of_int c \<le> y)"
proof -
  define e where "e = expo q"
  define u where "u = (2::rat) powi (e - 52)"
  define m where "m = rte (q / u)"
  have q0: "0 < q" using q1 by simp
  have e0: "0 \<le> e" unfolding e_def using q1 by (rule expo_nonneg)
  have lo: "2 powi e \<le> q" unfolding e_def using expo_bounds[OF q0] by simp
  have u0: "0 < u" by (simp add: u_def)
  have rp: "round_pos q = (if 2 ^ 1024 \<le> of_int m * u then PInf else Fin (of_int m * u))"
    using e0 by (simp add: round_pos_def Let_def max_def e_def[symmetric] u_def m_def)
  have "of_int c \<le> of_int m * u"
  proof (cases "e \<le> 52")
    case True
    define k where "k = nat (52 - e)"
    have uk: "u = 1 / 2 ^ k" using True by (simp add: u_def k_def power_int_def field_simps)
    have "of_int (c * 2 ^ k) = of_int c / u" by (simp add: uk)
    also have "\<dots> \<le> q / u" using cq u0 by (simp add: divide_right_mono)
    finally have "c * 2 ^ k \<le> m" unfolding m_def by (rule rte_ge)
    then have "(of_int (c * 2 ^ k) :: rat) \<le> of_int m" by (simp only: of_int_le_iff)
    then have "of_int (c * 2 ^ k) * u \<le> of_int m * u" using u0 by (simp only: mult_le_cancel_right_pos)
    then show ?thesis by (simp add: uk)
  next
    case False
    have "(2::rat) powi e / u = 2 powi (e - (e - 52))"
      unfolding u_def by (simp add: power_int_diff)
    then have pe: "(2::rat) powi e / u = of_int (2 ^ 52)" by (simp add: power_int_def)
    have "of_int (2 ^ 52) \<le> q / u" unfolding pe[symmetric] using lo u0 by (simp add: divide_right_mono)
    then have "2 ^ 52 \<le> m" unfolding m_def by (rule rte_ge)
    then have "(of_int (2 ^ 52) :: rat) \<le> of_int m" by (simp only: of_int_le_iff)
    then have "of_int (2 ^ 52) * u \<le> of_int m * u" using u0 by (simp only: mult_le_cancel_right_pos)
    moreover have "of_int (2 ^ 52) * u = 2 powi e" using pe u0 by (simp add: field_simps)
    moreover have "(2::rat) powi 53 \<le> 2 powi e" using False by (simp only: power_int_increasing[of _ _ 2])
    moreover have "(of_int c :: rat) \<le> 2 powi 53" using c53 by (simp add: power_int_def)
    ultimately show ?thesis by linarith
  qed
  then show ?thesis by (simp add: rp)
qed


lemma mul_100_car: "js_mul (Fin 100) (Fin (7566047373982433 / 36028797018963968)) = Fin 21"
proof -
  have "round_pos (100 * (7566047373982433 / 36028797018963968)) = Fin 21"
    by (rule round_pos_eqI[where e=4 and m="21 * 2 ^ 48"]) (simp_all add: dbl_eval)
  then show ?thesis by (simp add: js_mul_def round_double_def)
qed

lemma round_pos_21: "round_pos 21 = Fin 21"
  by (rule round_pos_eqI[where e=4 and m="21 * 2 ^ 48"]) (simp_all add: dbl_eval)

lemma div_21_50: "js_div (Fin 21) (Fin 50) = Fin (7566047373982433 / 18014398509481984)"
proof -
  have "round_pos (21 / 50) = Fin (7566047373982433 / 18014398509481984)"
    by (rule round_pos_eqI[where e="- 2" and m=7566047373982433]) (simp_all add: dbl_eval)
  then show ?thesis by (simp add: js_div_def round_double_def)
qed

lemma mul_42: "js_mul (Fin (7566047373982433 / 18014398509481984)) (Fin 100) = Fin 42"
proof -
  have "round_pos (7566047373982433 / 18014398509481984 * 100) = Fin 42"
    by (rule round_pos_eqI[where e=5 and m="42 * 2 ^ 47"]) (simp_all add: dbl_eval)
  then show ?thesis by (simp add: js_mul_def round_double_def)
qed

lemma rate_motorbike: "round_double (1 / 10) = Fin (3602879701896397 / 36028797018963968)"
proof -
  have "round_pos (1 / 10) = Fin (3602879701896397 / 36028797018963968)"
    by (rule round_pos_eqI[where e="- 4" and m=7205759403792794]) (simp_all add: dbl_eval)
  then show ?thesis by (simp add: round_double_def)
qed

lemma rate_bus: "round_double (1 / 20) = Fin (3602879701896397 / 72057594037927936)"
proof -
  have "round_pos (1 / 20) = Fin (3602879701896397 / 72057594037927936)"
    by (rule round_pos_eqI[where e="- 5" and m=7205759403792794]) (simp_all add: dbl_eval)
  then show ?thesis by (simp add: round_double_def)
qed

lemma floor_half: "\<lfloor>1 / 2 :: rat\<rfloor> = 0"
  by (rule floor_unique) simp_all

lemma round2_zero: "round2 (Fin 0) = Fin 0"
  by (simp add: round2_def toFixed2_def Number_of_def with_sign_def round_double_def floor_half)

lemma round2_21: "round2 (Fin 21) = Fin 21"
  by (simp add: round2_def toFixed2_def Number_of_def with_sign_def round_double_def round_pos_21
      floor_rat_numeral_div)

text \<open>Bounds on a rounding: its relative error is at most \<open>2^-53\<close>, up to \<open>2^-1075\<close> in
  the subnormal range, and it is not above an integer that the exact value is not above.\<close>

lemma round_pos_cases: "round_pos q = PInf \<or> (\<exists>y. round_pos q = Fin y)"
  by (simp add: round_pos_def Let_def)

lemma round_pos_nonneg:
  assumes "0 < q" "round_pos q = Fin y"
  shows "0 \<le> y"
proof -
  define u where "u = (2::rat) powi (max (expo q) (- 1022) - 52)"
  have u0: "0 < u" by (simp add: u_def)
  have y: "y = of_int (rte (q / u)) * u"
    using assms(2) by (simp add: round_pos_def Let_def u_def split: if_splits)
  have "of_int 0 \<le> q / u" using assms(1) u0 by simp
  then have "0 \<le> rte (q / u)" by (rule rte_ge)
  then show ?thesis using u0 by (simp add: y)
qed

lemma round_pos_rel_error:
  assumes "0 < q" "round_pos q = Fin y"
  shows "\<bar>y - q\<bar> \<le> q / 2 ^ 53 + 1 / 2 ^ 1075"
proof -
  have e: "\<bar>y - q\<bar> \<le> 2 powi (max (expo q) (- 1022) - 53)"
    using assms by (rule round_pos_error)
  show ?thesis
  proof (cases "- 1022 \<le> expo q")
    case True
    then have "(2::rat) powi (max (expo q) (- 1022) - 53) = 2 powi expo q / 2 ^ 53"
      by (simp add: max_def power_int_diff)
    also have "\<dots> \<le> q / 2 ^ 53"
      using expo_bounds[OF assms(1)] by (simp add: divide_right_mono)
    finally have "\<bar>y - q\<bar> \<le> q / 2 ^ 53" using e by simp
    moreover have "(0::rat) \<le> 1 / 2 ^ 1075" by simp
    ultimately show ?thesis by linarith
  next
    case False
    then have "(2::rat) powi (max (expo q) (- 1022) - 53) = 1 / 2 ^ 1075"
      by (simp add: max_def power_int_def field_simps)
    then have "\<bar>y - q\<bar> \<le> 1 / 2 ^ 1075" using e by simp
    moreover have "0 \<le> q / 2 ^ 53" using assms(1) by simp
    ultimately show ?thesis by linarith
  qed
qed

lemma is_fin_round_double: "is_fin (round_double q) \<Longrightarrow> round_double q \<noteq> PInf \<and> round_double q \<noteq> NInf"
  by (cases "round_double q") simp_all

lemma round_double_error:
  assumes "is_fin (round_double q)"
  shows "\<bar>rat_of (round_double q) - q\<bar> \<le> \<bar>q\<bar> / 2 ^ 53 + 1 / 2 ^ 1075"
proof -
  consider "q = 0" | "0 < q" | "q < 0" by linarith
  then show ?thesis
  proof cases
    case 1
    then show ?thesis by (simp add: round_double_def)
  next
    case 2
    then have rd: "round_double q = round_pos q" by (simp add: round_double_def)
    with assms round_pos_cases[of q] obtain y where y: "round_pos q = Fin y" by auto
    from round_pos_rel_error[OF 2 y] 2 show ?thesis by (simp add: rd y)
  next
    case 3
    then have q': "0 < - q" by simp
    have rd: "round_double q = jneg (round_pos (- q))" using 3 by (simp add: round_double_def)
    with assms round_pos_cases[of "- q"] obtain y where y: "round_pos (- q) = Fin y" by auto
    have r: "rat_of (round_double q) = - y" by (simp add: rd y)
    from round_pos_rel_error[OF q' y] 3 show ?thesis by (simp add: r abs_if split: if_splits)
  qed
qed

lemma round_pos_le:
  assumes q0: "0 < q" and qc: "q \<le> of_int c" and c52: "c \<le> 2 ^ 52"
  shows "\<exists>y. round_pos q = Fin y \<and> y \<le> of_int c"
proof -
  define e where "e = max (expo q) (- 1022)"
  define u where "u = (2::rat) powi (e - 52)"
  define m where "m = rte (q / u)"
  have u0: "0 < u" by (simp add: u_def)
  have e52: "e \<le> 52"
  proof (rule ccontr)
    assume "\<not> e \<le> 52"
    then have ee: "e = expo q" and "53 \<le> expo q" by (simp_all add: e_def max_def split: if_splits)
    then have "(2::rat) powi 53 \<le> 2 powi expo q" by (simp only: power_int_increasing[of _ _ 2])
    also have "\<dots> \<le> q" using expo_bounds[OF q0] by simp
    also have "\<dots> \<le> of_int c" by fact
    also have "\<dots> \<le> 2 ^ 52" using c52 by simp
    finally show False by (simp add: power_int_def)
  qed
  define k where "k = nat (52 - e)"
  have uk: "u = 1 / 2 ^ k" using e52 by (simp add: u_def k_def power_int_def field_simps)
  have "q / u \<le> of_int c / u" using qc u0 by (simp add: divide_right_mono)
  also have "\<dots> = of_int (c * 2 ^ k)" by (simp add: uk)
  finally have "m \<le> c * 2 ^ k" unfolding m_def by (rule rte_le)
  then have "(of_int m :: rat) \<le> of_int (c * 2 ^ k)" by (simp only: of_int_le_iff)
  then have "of_int m * u \<le> of_int (c * 2 ^ k) * u" using u0 by (simp only: mult_le_cancel_right_pos)
  then have le: "of_int m * u \<le> of_int c" by (simp add: uk)
  have "(of_int c :: rat) \<le> 2 ^ 52" using c52 by simp
  also have "\<dots> < 2 ^ 1024" by simp
  finally have "of_int m * u < 2 ^ 1024" using le by simp
  then have "round_pos q = Fin (of_int m * u)"
    by (simp add: round_pos_def Let_def e_def[symmetric] u_def[symmetric] m_def[symmetric])
  with le show ?thesis by simp
qed

section \<open>Properties of the calculator\<close>

subsection \<open>What rendering and persisting leave unchanged\<close>

lemma trips_renderTable: "trips (renderTable s) = trips s"
  by (simp add: renderTable_def split: option.split)

lemma trips_updateProgress: "trips (updateProgress s) = trips s"
  by (simp add: updateProgress_def split: option.split)

lemma total_renderTable: "totalEmissions (renderTable s) = totalEmissions s"
  by (simp add: renderTable_def split: option.split)

lemma total_updateProgress: "totalEmissions (updateProgress s) = totalEmissions s"
  by (simp add: updateProgress_def split: option.split)

lemma storage_renderTable: "storage (renderTable s) = storage s"
  by (simp add: renderTable_def split: option.split)

lemma storage_updateProgress: "storage (updateProgress s) = storage s"
  by (simp add: updateProgress_def split: option.split)

lemmas frame_simps = trips_renderTable trips_updateProgress total_renderTable
  total_updateProgress storage_renderTable storage_updateProgress

subsection \<open>Loading\<close>

text \<open>
  Claim C5. Loading gives the empty trip list when the storage key is absent and when its
  text is not \<open>JSON\<close>. \<open>load\<close> has no error result, and the calculator started on such a
  storage has no trip and a total of zero.
\<close>

theorem load_defaults_to_empty:
  "load Absent = [] \<and> load Unparseable = []
   \<and> trips (calculator Absent hasTable hasBar) = []
   \<and> trips (calculator Unparseable hasTable hasBar) = []
   \<and> totalEmissions (calculator Absent hasTable hasBar) = Fin 0
   \<and> totalEmissions (calculator Unparseable hasTable hasBar) = Fin 0"
  by (simp add: load_def calculator_def Let_def frame_simps reduce_emissions_def)

subsection \<open>Clearing\<close>

text \<open>
  Claim C7. From any state \<open>clearTrips\<close> leaves no trip and a total of zero; what it persists
  loads as the empty list, and a calculator started on that storage is empty with total zero.
\<close>

theorem clearTrips_resets:
  "trips (clearTrips s) = [] \<and> totalEmissions (clearTrips s) = Fin 0
   \<and> storage (clearTrips s) = JSON_stringify []
   \<and> load (storage (clearTrips s)) = []
   \<and> trips (calculator (storage (clearTrips s)) hasTable hasBar) = []
   \<and> totalEmissions (calculator (storage (clearTrips s)) hasTable hasBar) = Fin 0"
  by (simp add: clearTrips_def persist_def load_def calculator_def Let_def frame_simps
      reduce_emissions_def JSON_stringify_def)

subsection \<open>Adding a trip\<close>

text \<open>
  Claim C10. \<open>addTrip\<close> checks nothing: for every distance (zero, negative, NaN and the
  infinities included) and every vehicle string it appends exactly one trip, whose emissions
  are the product of the distance and the rate it read, rounded to two decimals, and adds
  these emissions to the running total. The submit handler is where an input is rejected:
  with no vehicle, an empty vehicle, a NaN distance or a distance \<open><= 0\<close> the state stays as
  it is, and otherwise the handler is \<open>addTrip\<close>.
\<close>

theorem addTrip_unconditional:
  "trips (addTrip today vehicle distance s) =
     trips s @ [\<lparr>trip_date = today, trip_vehicle = vehicle, trip_distance = Num distance,
                 trip_emissions = Num (round2 (js_mul distance
                     (ToNumber (or_zero (get_prop EMISSION_RATES vehicle)))))\<rparr>]
   \<and> length (trips (addTrip today vehicle distance s)) = Suc (length (trips s))
   \<and> totalEmissions (addTrip today vehicle distance s) =
       js_add (totalEmissions s)
         (round2 (js_mul distance (ToNumber (or_zero (get_prop EMISSION_RATES vehicle)))))
   \<and> submit today v distance s =
       (if v = None \<or> v = Some [] \<or> Number_isNaN distance \<or> js_le distance (Fin 0) then s
        else addTrip today (the v) distance s)"
  by (simp add: addTrip_def submit_def persist_def Let_def frame_simps round2_def
      split: option.split)

subsection \<open>The running total\<close>

lemma Number_val_parse: "Number_val (val_or_zero (parse_val j)) = Number_val (parse_val j)"
  by (cases j) (auto simp: num_truthy_def)

lemma reduce_loaded: "reduce_emissions (load st) = sum_emissions (load st)"
proof -
  have "foldl (\<lambda>s t. js_add s (Number_val (val_or_zero (trip_emissions t)))) a (map parse_trip js)
      = foldl (\<lambda>s t. js_add s (Number_val (trip_emissions t))) a (map parse_trip js)" for a js
    by (induction js arbitrary: a) (simp_all add: parse_trip_def Number_val_parse)
  then show ?thesis
    by (cases st) (simp_all add: load_def reduce_emissions_def sum_emissions_def)
qed

lemma sum_emissions_snoc:
  "sum_emissions (ts @ [t]) = js_add (sum_emissions ts) (Number_val (trip_emissions t))"
  by (simp add: sum_emissions_def)

text \<open>
  The running total is the fold of the operator \<open>+\<close> over the \<open>emissions\<close> fields of the
  trips in the list, from the left and from zero: after the start from any stored value;
  after \<open>addTrip\<close> if it was before, for every vehicle and distance; after \<open>clearTrips\<close>.
  The two are the same Number, NaN and the infinities included.
\<close>

theorem total_is_sum:
  "totalEmissions (calculator st hasTable hasBar)
     = sum_emissions (trips (calculator st hasTable hasBar))
   \<and> (totalEmissions s = sum_emissions (trips s) \<longrightarrow>
        totalEmissions (addTrip today vehicle distance s)
          = sum_emissions (trips (addTrip today vehicle distance s)))
   \<and> totalEmissions (clearTrips s) = sum_emissions (trips (clearTrips s))"
proof (intro conjI impI)
  show "totalEmissions (calculator st hasTable hasBar)
          = sum_emissions (trips (calculator st hasTable hasBar))"
    by (simp add: calculator_def Let_def frame_simps reduce_loaded)
  show "totalEmissions (clearTrips s) = sum_emissions (trips (clearTrips s))"
    by (simp add: clearTrips_def persist_def frame_simps sum_emissions_def)
  assume "totalEmissions s = sum_emissions (trips s)"
  then show "totalEmissions (addTrip today vehicle distance s)
          = sum_emissions (trips (addTrip today vehicle distance s))"
    by (simp add: addTrip_def persist_def Let_def frame_simps sum_emissions_snoc)
qed

theorem total_is_sum_witness:
  "totalEmissions (calculator Absent True True)
     = sum_emissions (trips (calculator Absent True True))
   \<and> totalEmissions (addTrip ''11/2/2026'' ''car'' (Fin 100) (calculator Absent True True))
     = sum_emissions (trips (addTrip ''11/2/2026'' ''car'' (Fin 100)
         (calculator Absent True True)))"
  using total_is_sum[of Absent True True "calculator Absent True True" "''11/2/2026''"
      "''car''" "Fin 100"]
  by blast

subsection \<open>The storage round trip\<close>








lemma get_car:
  "or_zero (get_prop EMISSION_RATES ''car'') = NumVal (Fin (7566047373982433 / 36028797018963968))"
  by (simp add: get_prop_def EMISSION_RATES_def or_zero_def num_truthy_def rate_car)


subsection \<open>The progress bar\<close>

lemma percent_clamped:
  assumes "js_le (Fin 50) t"
  shows "percent_of t = Fin 100"
proof (cases t)
  case (Fin q)
  with assms have q50: "50 \<le> q" by (simp add: js_le_def)
  then have q1: "1 \<le> q / 50" by simp
  have d: "js_div t (Fin 50) = round_pos (q / 50)"
    using q50 Fin by (simp add: js_div_def round_double_def)
  from round_pos_ge[OF q1, of 1] q1
  consider "round_pos (q / 50) = PInf" | y where "round_pos (q / 50) = Fin y" "1 \<le> y"
    by auto
  then show ?thesis
  proof cases
    case 1
    then show ?thesis
      by (simp add: percent_of_def d js_mul_def with_sign_def Math_min_def js_le_def)
  next
    case 2
    then have y100: "of_int 100 \<le> y * 100" and y1: "1 \<le> y * 100" by simp_all
    have m: "js_mul (Fin y) (Fin 100) = round_pos (y * 100)"
      using 2 by (simp add: js_mul_def round_double_def)
    from round_pos_ge[OF y1 y100]
    consider "round_pos (y * 100) = PInf" | z where "round_pos (y * 100) = Fin z" "100 \<le> z"
      by auto
    then show ?thesis
    proof cases
      case 1
      then show ?thesis by (simp add: percent_of_def d 2 m Math_min_def js_le_def)
    next
      case 2
      then show ?thesis
        by (auto simp add: percent_of_def d \<open>round_pos (q / 50) = Fin y\<close> m Math_min_def
            js_le_def)
    qed
  qed
qed (use assms in \<open>simp_all add: js_le_def percent_of_def js_div_def js_mul_def with_sign_def
      Math_min_def\<close>)

lemma Math_min_left: "a = NaN \<or> js_le a (Fin 100) \<Longrightarrow> Math_min a (Fin 100) = a"
  by (auto simp: Math_min_def js_le_def)

lemma round_double_le:
  assumes "q \<le> of_int c" "0 < c" "c \<le> 2 ^ 52"
  shows "js_le (round_double q) (Fin (of_int c))"
proof -
  consider "q = 0" | "0 < q" | "q < 0" by linarith
  then show ?thesis
  proof cases
    case 1
    then show ?thesis using assms(2) by (simp add: round_double_def js_le_def)
  next
    case 2
    from round_pos_le[OF 2 assms(1) assms(3)] obtain y where "round_pos q = Fin y" "y \<le> of_int c"
      by blast
    then show ?thesis using 2 by (simp add: round_double_def js_le_def)
  next
    case 3
    then have q': "0 < - q" by simp
    have rd: "round_double q = jneg (round_pos (- q))" using 3 by (simp add: round_double_def)
    from round_pos_cases[of "- q"] show ?thesis
    proof
      assume "round_pos (- q) = PInf"
      then show ?thesis by (simp add: rd js_le_def)
    next
      assume "\<exists>y. round_pos (- q) = Fin y"
      then obtain y where y: "round_pos (- q) = Fin y" by blast
      then have "0 \<le> y" using round_pos_nonneg[OF q'] by simp
      then show ?thesis using assms(2) by (simp add: rd y js_le_def)
    qed
  qed
qed

lemma div_50_le:
  assumes "\<not> js_le (Fin 50) t"
  shows "js_div t (Fin 50) = NaN \<or> js_le (js_div t (Fin 50)) (Fin 1)"
proof (cases t)
  case (Fin q)
  with assms have q: "q < 50" by (simp add: js_le_def)
  show ?thesis
  proof (cases "q = 0")
    case True
    then show ?thesis using Fin by (simp add: js_div_def with_sign_def js_le_def)
  next
    case False
    have "q / 50 \<le> of_int 1" using q by simp
    then have "js_le (round_double (q / 50)) (Fin (of_int 1))" by (rule round_double_le) simp_all
    then show ?thesis using Fin False by (simp add: js_div_def)
  qed
qed (use assms in \<open>simp_all add: js_div_def js_le_def with_sign_def\<close>)

lemma mul_100_le:
  assumes "d = NaN \<or> js_le d (Fin 1)"
  shows "js_mul d (Fin 100) = NaN \<or> js_le (js_mul d (Fin 100)) (Fin 100)"
proof (cases d)
  case (Fin y)
  with assms have y: "y \<le> 1" by (simp add: js_le_def)
  show ?thesis
  proof (cases "y = 0")
    case True
    then show ?thesis using Fin by (simp add: js_mul_def with_sign_def js_le_def)
  next
    case False
    have "y * 100 \<le> of_int 100" using y by simp
    then have "js_le (round_double (y * 100)) (Fin (of_int 100))"
      by (rule round_double_le) simp_all
    then show ?thesis using Fin False by (simp add: js_mul_def)
  qed
qed (use assms in \<open>simp_all add: js_mul_def js_le_def with_sign_def\<close>)

lemma percent_unclamped:
  assumes "\<not> js_le (Fin 50) t"
  shows "percent_of t = js_mul (js_div t (Fin 50)) (Fin 100)"
  unfolding percent_of_def
  by (rule Math_min_left, rule mul_100_le, rule div_50_le, rule assms)

lemma is_fin_js_mul_100: "is_fin (js_mul d (Fin 100)) \<Longrightarrow> is_fin d"
  by (cases d) (simp_all add: js_mul_def with_sign_def)

lemma js_mul_100_error:
  assumes "is_fin (js_mul d (Fin 100))"
  shows "\<bar>rat_of (js_mul d (Fin 100)) - rat_of d * 100\<bar> \<le> \<bar>rat_of d * 100\<bar> / 2 ^ 53 + 1 / 2 ^ 1075"
proof (cases "is_zero d")
  case True
  then show ?thesis by (cases d) (simp_all add: js_mul_def with_sign_def)
next
  case False
  have "is_fin d" using assms by (rule is_fin_js_mul_100)
  with False have eq: "js_mul d (Fin 100) = round_double (rat_of d * 100)"
    by (cases d) (simp_all add: js_mul_def)
  show ?thesis using assms round_double_error[of "rat_of d * 100"] by (simp add: eq)
qed

lemma js_div_50_error:
  assumes "is_fin (js_div (Fin q) (Fin 50))"
  shows "\<bar>rat_of (js_div (Fin q) (Fin 50)) - q / 50\<bar> \<le> \<bar>q / 50\<bar> / 2 ^ 53 + 1 / 2 ^ 1075"
proof (cases "q = 0")
  case True
  then show ?thesis by (simp add: js_div_def with_sign_def)
next
  case False
  then have eq: "js_div (Fin q) (Fin 50) = round_double (q / 50)" by (simp add: js_div_def)
  show ?thesis using assms round_double_error[of "q / 50"] by (simp add: eq)
qed

lemma percent_error:
  assumes "is_fin (js_mul (js_div (Fin q) (Fin 50)) (Fin 100))"
  shows "\<bar>rat_of (js_mul (js_div (Fin q) (Fin 50)) (Fin 100)) - q / 50 * 100\<bar>
           \<le> \<bar>q\<bar> / 2 ^ 50 + 1 / 2 ^ 1068"
proof -
  define d where "d = rat_of (js_div (Fin q) (Fin 50))"
  define p where "p = rat_of (js_mul (js_div (Fin q) (Fin 50)) (Fin 100))"
  have fd: "is_fin (js_div (Fin q) (Fin 50))" using assms by (rule is_fin_js_mul_100)
  have e1: "\<bar>d - q / 50\<bar> \<le> \<bar>q / 50\<bar> / 2 ^ 53 + 1 / 2 ^ 1075"
    unfolding d_def using fd by (rule js_div_50_error)
  have e2: "\<bar>p - d * 100\<bar> \<le> \<bar>d * 100\<bar> / 2 ^ 53 + 1 / 2 ^ 1075"
    unfolding p_def d_def using assms by (rule js_mul_100_error)
  have a1: "\<bar>q / 50\<bar> = \<bar>q\<bar> / 50" by simp
  have a2: "\<bar>d * 100\<bar> = \<bar>d\<bar> * 100" by (simp add: abs_mult)
  have q0: "0 \<le> \<bar>q\<bar>" by simp
  have "\<bar>p - q / 50 * 100\<bar> \<le> \<bar>q\<bar> / 2 ^ 50 + 1 / 2 ^ 1068"
    using e1 e2 q0 unfolding a1 a2 by (simp add: abs_le_iff) linarith
  then show ?thesis by (simp add: p_def)
qed

lemma percent_below:
  assumes "0 \<le> q" "q < 50"
  shows "\<exists>p. js_mul (js_div (Fin q) (Fin 50)) (Fin 100) = Fin p \<and> 0 \<le> p \<and> p \<le> 100"
proof (cases "q = 0")
  case True
  then show ?thesis by (simp add: js_div_def js_mul_def with_sign_def)
next
  case False
  with assms have q0: "0 < q / 50" and q1: "q / 50 \<le> of_int 1" by simp_all
  from round_pos_le[OF q0 q1] obtain y where y: "round_pos (q / 50) = Fin y" "y \<le> 1"
    by auto
  have y0: "0 \<le> y" using round_pos_nonneg[OF q0 y(1)] .
  have d: "js_div (Fin q) (Fin 50) = Fin y"
    using False q0 y by (simp add: js_div_def round_double_def)
  show ?thesis
  proof (cases "y = 0")
    case True
    then show ?thesis by (simp add: d js_mul_def with_sign_def)
  next
    case False
    with y0 y(2) have z0: "0 < y * 100" and z1: "y * 100 \<le> of_int 100" by simp_all
    from round_pos_le[OF z0 z1] obtain z where z: "round_pos (y * 100) = Fin z" "z \<le> 100"
      by auto
    have "0 \<le> z" using round_pos_nonneg[OF z0 z(1)] .
    then show ?thesis using False z0 z by (simp add: d js_mul_def round_double_def)
  qed
qed

lemma percent_0: "percent_of (Fin 0) = Fin 0"
  by (simp add: percent_of_def js_div_def js_mul_def with_sign_def Math_min_def js_le_def)

lemma percent_21: "percent_of (Fin 21) = Fin 42"
  by (simp add: percent_of_def div_21_50 mul_42 Math_min_def js_le_def)

lemma percent_25: "percent_of (Fin 25) = Fin 50"
proof -
  have "round_pos (1 / 2) = Fin (1 / 2)"
    by (rule round_pos_eqI[where e="- 1" and m="2 ^ 52"]) (simp_all add: dbl_eval)
  then have d: "js_div (Fin 25) (Fin 50) = Fin (1 / 2)" by (simp add: js_div_def round_double_def)
  have "round_pos 50 = Fin 50"
    by (rule round_pos_eqI[where e=5 and m="50 * 2 ^ 47"]) (simp_all add: dbl_eval)
  then have m: "js_mul (Fin (1 / 2)) (Fin 100) = Fin 50" by (simp add: js_mul_def round_double_def)
  show ?thesis by (simp add: percent_of_def d m Math_min_def js_le_def)
qed

text \<open>
  Claim C6. The width \<open>updateProgress\<close> gives the progress bar, when the page has one, is
  \<open>Math.min((total / 50) * 100, 100)\<close> of the running total, computed in binary64. For every
  total that is \<open>>= 50\<close>, the infinite one included, it is exactly 100. For every other
  total \<open>Math.min\<close> changes nothing: the width is \<open>(total / 50) * 100\<close>, the quotient and the
  product each rounded once. For a total from 0 up to 50 this is a finite Number between 0
  and 100 that differs from the exact \<open>total / 50 * 100\<close> by at most \<open>total * 2^-50\<close> (and
  \<open>2^-1068\<close>, for the subnormal range); it is exactly 0, 42 and 50 for the totals 0, 21
  and 25.
\<close>

theorem progress_percent:
  "(progressBar s \<noteq> None \<longrightarrow>
        progressBar (updateProgress s) = Some (percent_of (totalEmissions s)))
   \<and> (js_le (Fin 50) t \<longrightarrow> percent_of t = Fin 100)
   \<and> (\<not> js_le (Fin 50) t \<longrightarrow> percent_of t = js_mul (js_div t (Fin 50)) (Fin 100))
   \<and> (0 \<le> q \<and> q < 50 \<longrightarrow>
        (\<exists>p. percent_of (Fin q) = Fin p \<and> 0 \<le> p \<and> p \<le> 100
           \<and> \<bar>p - q / 50 * 100\<bar> \<le> q / 2 ^ 50 + 1 / 2 ^ 1068))
   \<and> percent_of (Fin 0) = Fin 0 \<and> percent_of (Fin 21) = Fin 42
   \<and> percent_of (Fin 25) = Fin 50"
proof (intro conjI impI)
  show "progressBar (updateProgress s) = Some (percent_of (totalEmissions s))"
    if "progressBar s \<noteq> None"
    using that by (auto simp: updateProgress_def)
  show "percent_of t = Fin 100" if "js_le (Fin 50) t"
    using that by (rule percent_clamped)
  show "percent_of t = js_mul (js_div t (Fin 50)) (Fin 100)" if "\<not> js_le (Fin 50) t"
    using that by (rule percent_unclamped)
  show "\<exists>p. percent_of (Fin q) = Fin p \<and> 0 \<le> p \<and> p \<le> 100
           \<and> \<bar>p - q / 50 * 100\<bar> \<le> q / 2 ^ 50 + 1 / 2 ^ 1068" if "0 \<le> q \<and> q < 50"
  proof -
    from that have q: "0 \<le> q" "q < 50" by simp_all
    from percent_below[OF q] obtain p
      where p: "js_mul (js_div (Fin q) (Fin 50)) (Fin 100) = Fin p" "0 \<le> p" "p \<le> 100"
      by blast
    have u: "percent_of (Fin q) = Fin p"
      using q(2) by (simp add: percent_unclamped js_le_def p(1))
    have "\<bar>rat_of (js_mul (js_div (Fin q) (Fin 50)) (Fin 100)) - q / 50 * 100\<bar>
           \<le> \<bar>q\<bar> / 2 ^ 50 + 1 / 2 ^ 1068"
      by (rule percent_error) (simp add: p(1))
    then have "\<bar>p - q / 50 * 100\<bar> \<le> q / 2 ^ 50 + 1 / 2 ^ 1068"
      using q(1) by (simp add: p(1))
    with u p(2,3) show ?thesis by blast
  qed
  show "percent_of (Fin 0) = Fin 0" by (rule percent_0)
  show "percent_of (Fin 21) = Fin 42" by (rule percent_21)
  show "percent_of (Fin 25) = Fin 50" by (rule percent_25)
qed

theorem progress_percent_witness:
  "progressBar (updateProgress \<lparr>trips = [], totalEmissions = Fin 21, storage = Absent,
        tripTable = None, progressBar = Some (Fin 0)\<rparr>) = Some (Fin 42)
   \<and> \<not> js_le (Fin 50) (Fin 21)
   \<and> js_mul (js_div (Fin 21) (Fin 50)) (Fin 100) = Fin 42
   \<and> progressBar (updateProgress \<lparr>trips = [], totalEmissions = Fin 75, storage = Absent,
        tripTable = None, progressBar = Some (Fin 0)\<rparr>) = Some (Fin 100)
   \<and> js_le (Fin 50) (Fin 75) \<and> percent_of (Fin 75) = Fin 100"
  using progress_percent[of "\<lparr>trips = [], totalEmissions = Fin 21, storage = Absent,
        tripTable = None, progressBar = Some (Fin 0)\<rparr>" "Fin 21" 21]
    progress_percent[of "\<lparr>trips = [], totalEmissions = Fin 75, storage = Absent,
        tripTable = None, progressBar = Some (Fin 0)\<rparr>" "Fin 75" 21]
  by (simp add: js_le_def)

subsection \<open>The running total and the sum of the fields\<close>















subsection \<open>The scenario of one car trip\<close>

text \<open>
  Claim C9. In a state with no trip and a total of zero, on a page that has the table and
  the progress bar, adding a trip by car of 100 km gives a trip list of this one trip, with
  emissions of exactly 21 (shown as \<open>21.00\<close>), a total of 21, a table of one row, and a
  progress bar of exactly 42 percent.
\<close>

theorem car_100_scenario:
  assumes "trips s = []" "totalEmissions s = Fin 0" "tripTable s \<noteq> None" "progressBar s \<noteq> None"
  shows "trips (addTrip today ''car'' (Fin 100) s)
           = [\<lparr>trip_date = today, trip_vehicle = ''car'', trip_distance = Num (Fin 100),
               trip_emissions = Num (Fin 21)\<rparr>]
         \<and> length (trips (addTrip today ''car'' (Fin 100) s)) = 1
         \<and> toFixed2 (Fin 21) = StrFixed False 2100
         \<and> totalEmissions (addTrip today ''car'' (Fin 100) s) = Fin 21
         \<and> tripTable (addTrip today ''car'' (Fin 100) s)
           = Some [\<lparr>trip_date = today, trip_vehicle = ''car'', trip_distance = Num (Fin 100),
               trip_emissions = Num (Fin 21)\<rparr>]
         \<and> progressBar (addTrip today ''car'' (Fin 100) s) = Some (Fin 42)"
proof -
  have e: "Number_of (toFixed2 (js_mul (Fin 100)
             (ToNumber (or_zero (get_prop EMISSION_RATES ''car''))))) = Fin 21"
    using round2_21 by (simp add: get_car mul_100_car round2_def)
  have a: "js_add (Fin 0) (Fin 21) = Fin 21"
    by (simp add: js_add_def round_double_def round_pos_21)
  have p: "percent_of (Fin 21) = Fin 42"
    by (simp add: percent_of_def div_21_50 mul_42 Math_min_def js_le_def)
  have f: "toFixed2 (Fin 21) = StrFixed False 2100"
    by (simp add: toFixed2_def floor_rat_numeral_div)
  show ?thesis using assms
    by (auto simp add: addTrip_def Let_def e a p f persist_def renderTable_def
        updateProgress_def)
qed

theorem car_100_scenario_witness:
  "trips (addTrip ''11/2/2026'' ''car'' (Fin 100) (calculator Absent True True))
     = [\<lparr>trip_date = ''11/2/2026'', trip_vehicle = ''car'', trip_distance = Num (Fin 100),
         trip_emissions = Num (Fin 21)\<rparr>]
   \<and> length (trips (addTrip ''11/2/2026'' ''car'' (Fin 100) (calculator Absent True True))) = 1
   \<and> progressBar (addTrip ''11/2/2026'' ''car'' (Fin 100) (calculator Absent True True))
     = Some (Fin 42)"
  using car_100_scenario[of "calculator Absent True True" "''11/2/2026''"]
  by (simp add: calculator_def Let_def load_def reduce_emissions_def renderTable_def
      updateProgress_def)

subsection \<open>The rate of a vehicle\<close>

lemma rate_lookup:
  "vehicle \<notin> set Object_prototype \<Longrightarrow>
     ToNumber (or_zero (get_prop EMISSION_RATES vehicle)) = rate vehicle"
  by (simp add: get_prop_def EMISSION_RATES_def rate_def or_zero_def num_truthy_def
      rate_car rate_motorbike rate_bus)

text \<open>
  Claim C1 fails on a vehicle string that names a property every object inherits. For
  \<open>toString\<close> the rate read is a function, \<open>|| 0\<close> keeps it, the product with the distance
  is NaN, and so are the emissions of the trip and the running total from then on; the
  claim gives the rate zero and emissions of zero.
\<close>

theorem inherited_key_gives_NaN:
  "trips (addTrip ''11/2/2026'' ''toString'' (Fin 10) (calculator Absent True True))
     = [\<lparr>trip_date = ''11/2/2026'', trip_vehicle = ''toString'', trip_distance = Num (Fin 10),
         trip_emissions = Num NaN\<rparr>]
   \<and> totalEmissions (addTrip ''11/2/2026'' ''toString'' (Fin 10) (calculator Absent True True))
     = NaN
   \<and> round2 (js_mul (Fin 10) (rate ''toString'')) = Fin 0"
  using round2_zero
  by (simp add: addTrip_def Let_def get_prop_def EMISSION_RATES_def Object_prototype_def
      or_zero_def js_mul_def toFixed2_def Number_of_def persist_def frame_simps calculator_def
      load_def reduce_emissions_def js_add_def rate_def with_sign_def)

text \<open>
  For every other vehicle string, the four known kinds among them, and every distance, the
  emissions of the trip \<open>addTrip\<close> appends are the product of the distance and the rate of
  the specification, rounded to two decimals; for a string that is no known kind and a
  finite distance they are zero.
\<close>

theorem emissions_by_rate:
  "vehicle \<notin> set Object_prototype \<Longrightarrow>
     trips (addTrip today vehicle distance s)
       = trips s @ [\<lparr>trip_date = today, trip_vehicle = vehicle, trip_distance = Num distance,
           trip_emissions = Num (round2 (js_mul distance (rate vehicle)))\<rparr>]"
  by (simp add: addTrip_def Let_def rate_lookup persist_def frame_simps round2_def)

theorem emissions_by_rate_witness:
  "''bus'' \<notin> set Object_prototype
   \<and> trips (addTrip ''11/2/2026'' ''bus'' (Fin 40) (calculator Absent True True))
       = [\<lparr>trip_date = ''11/2/2026'', trip_vehicle = ''bus'', trip_distance = Num (Fin 40),
           trip_emissions = Num (round2 (js_mul (Fin 40) (rate ''bus'')))\<rparr>]"
  using emissions_by_rate[of "''bus''" "''11/2/2026''" "Fin 40" "calculator Absent True True"]
  by (simp add: Object_prototype_def calculator_def Let_def load_def frame_simps)

text \<open>
  The submit handler accepts the distance \<open>Infinity\<close>, which is neither NaN nor \<open><= 0\<close>. By
  bicycle the product \<open>Infinity * 0\<close> is NaN: the trip has NaN emissions and the running total
  is NaN from then on.
\<close>

theorem submit_accepts_infinity:
  "submit today (Some ''bicycle'') PInf s = addTrip today ''bicycle'' PInf s
   \<and> trips (submit today (Some ''bicycle'') PInf s)
       = trips s @ [\<lparr>trip_date = today, trip_vehicle = ''bicycle'', trip_distance = Num PInf,
           trip_emissions = Num NaN\<rparr>]
   \<and> totalEmissions (submit today (Some ''bicycle'') PInf s) = NaN"
  by (simp add: submit_def Number_isNaN_def js_le_def addTrip_def Let_def get_prop_def
      EMISSION_RATES_def or_zero_def num_truthy_def js_mul_def toFixed2_def Number_of_def
      persist_def frame_simps js_add_def)

section \<open>Properties of the debug interface\<close>

text \<open>
  Claim C8. \<open>getTrips\<close> returns a new array that holds the elements of \<open>trips\<close>, in the same
  order. Whatever the caller then writes into the returned array (a push, setting its length
  to zero, any other elements) leaves the trips of the calculator and the running total as
  they were.
\<close>

theorem getTrips_is_a_copy:
  assumes "tripsRef st < length (arrs st)"
  shows "\<exists>r st'. getTrips st = Some (r, st')
           \<and> arrs st' ! r = arrs st ! tripsRef st
           \<and> map (\<lambda>i. objs st' ! i) (arrs st' ! r) = trips_of st
           \<and> r \<noteq> tripsRef st'
           \<and> trips_of st' = trips_of st \<and> totalVar st' = totalVar st
           \<and> (\<forall>xs. trips_of (array_write r xs st') = trips_of st
                   \<and> totalVar (array_write r xs st') = totalVar st)
           \<and> (\<forall>x. trips_of (array_push r x st') = trips_of st
                   \<and> totalVar (array_push r x st') = totalVar st)
           \<and> trips_of (array_clear r st') = trips_of st
           \<and> totalVar (array_clear r st') = totalVar st"
  using assms
  by (simp add: getTrips_def trips_of_def array_write_def array_push_def array_clear_def
      nth_append nth_list_update)

theorem getTrips_is_a_copy_witness:
  "tripsRef \<lparr>objs = [\<lparr>trip_date = ''11/2/2026'', trip_vehicle = ''car'',
                trip_distance = Num (Fin 100), trip_emissions = Num (Fin 21)\<rparr>],
             arrs = [[0]], tripsRef = 0, totalVar = Fin 21\<rparr>
     < length (arrs \<lparr>objs = [\<lparr>trip_date = ''11/2/2026'', trip_vehicle = ''car'',
                trip_distance = Num (Fin 100), trip_emissions = Num (Fin 21)\<rparr>],
             arrs = [[0]], tripsRef = 0, totalVar = Fin 21\<rparr>)
   \<and> getTrips \<lparr>objs = [\<lparr>trip_date = ''11/2/2026'', trip_vehicle = ''car'',
                trip_distance = Num (Fin 100), trip_emissions = Num (Fin 21)\<rparr>],
             arrs = [[0]], tripsRef = 0, totalVar = Fin 21\<rparr>
     = Some (1, \<lparr>objs = [\<lparr>trip_date = ''11/2/2026'', trip_vehicle = ''car'',
                trip_distance = Num (Fin 100), trip_emissions = Num (Fin 21)\<rparr>],
             arrs = [[0], [0]], tripsRef = 0, totalVar = Fin 21\<rparr>)
   \<and> trips_of (array_clear 1 \<lparr>objs = [\<lparr>trip_date = ''11/2/2026'', trip_vehicle = ''car'',
                trip_distance = Num (Fin 100), trip_emissions = Num (Fin 21)\<rparr>],
             arrs = [[0], [0]], tripsRef = 0, totalVar = Fin 21\<rparr>)
     = [\<lparr>trip_date = ''11/2/2026'', trip_vehicle = ''car'',
                trip_distance = Num (Fin 100), trip_emissions = Num (Fin 21)\<rparr>]"
  using getTrips_is_a_copy[of "\<lparr>objs = [\<lparr>trip_date = ''11/2/2026'', trip_vehicle = ''car'',
                trip_distance = Num (Fin 100), trip_emissions = Num (Fin 21)\<rparr>],
             arrs = [[0]], tripsRef = 0, totalVar = Fin 21\<rparr>"]
  by (simp add: getTrips_def trips_of_def array_clear_def array_write_def)

text \<open>
  The copy is shallow: the returned array holds the trip objects of \<open>trips\<close> themselves, so a
  write to the trip at position \<open>k\<close> of the returned array shows at position \<open>k\<close> of the
  trips of the calculator.
\<close>

theorem getTrips_shares_objects:
  assumes "getTrips st = Some (r, st')" "k < length (arrs st' ! r)"
    "arrs st' ! r ! k < length (objs st')"
  shows "trips_of (object_write (arrs st' ! r ! k) t st') ! k = t"
  using assms
  by (auto simp add: getTrips_def trips_of_def object_write_def nth_append split: if_splits)

theorem getTrips_shares_objects_witness:
  "getTrips \<lparr>objs = [\<lparr>trip_date = ''11/2/2026'', trip_vehicle = ''car'',
                trip_distance = Num (Fin 100), trip_emissions = Num (Fin 21)\<rparr>],
             arrs = [[0]], tripsRef = 0, totalVar = Fin 21\<rparr>
     = Some (1, \<lparr>objs = [\<lparr>trip_date = ''11/2/2026'', trip_vehicle = ''car'',
                trip_distance = Num (Fin 100), trip_emissions = Num (Fin 21)\<rparr>],
             arrs = [[0], [0]], tripsRef = 0, totalVar = Fin 21\<rparr>)
   \<and> trips_of (object_write 0 \<lparr>trip_date = ''11/2/2026'', trip_vehicle = ''car'',
                trip_distance = Num (Fin 100), trip_emissions = Num (Fin 5)\<rparr>
         \<lparr>objs = [\<lparr>trip_date = ''11/2/2026'', trip_vehicle = ''car'',
                trip_distance = Num (Fin 100), trip_emissions = Num (Fin 21)\<rparr>],
             arrs = [[0], [0]], tripsRef = 0, totalVar = Fin 21\<rparr>) ! 0
     = \<lparr>trip_date = ''11/2/2026'', trip_vehicle = ''car'',
                trip_distance = Num (Fin 100), trip_emissions = Num (Fin 5)\<rparr>"
  using getTrips_shares_objects[of
      "\<lparr>objs = [\<lparr>trip_date = ''11/2/2026'', trip_vehicle = ''car'',
                trip_distance = Num (Fin 100), trip_emissions = Num (Fin 21)\<rparr>],
             arrs = [[0]], tripsRef = 0, totalVar = Fin 21\<rparr>"
      1
      "\<lparr>objs = [\<lparr>trip_date = ''11/2/2026'', trip_vehicle = ''car'',
                trip_distance = Num (Fin 100), trip_emissions = Num (Fin 21)\<rparr>],
             arrs = [[0], [0]], tripsRef = 0, totalVar = Fin 21\<rparr>"
      0
      "\<lparr>trip_date = ''11/2/2026'', trip_vehicle = ''car'',
                trip_distance = Num (Fin 100), trip_emissions = Num (Fin 5)\<rparr>"]
  by (simp add: getTrips_def trips_of_def object_write_def)

lemma trips_of_push:
  assumes "store_ok st"
  shows "trips_of (push_trip t st) = trips_of st @ [t]"
proof -
  have r: "tripsRef st < length (arrs st)" using assms by (simp add: store_ok_def)
  have "list_all (\<lambda>i. i < length (objs st)) (arrs st ! tripsRef st)"
    using assms r by (simp add: store_ok_def list_all_length)
  then have "map (\<lambda>i. (objs st @ [t]) ! i) (arrs st ! tripsRef st)
           = map (\<lambda>i. objs st ! i) (arrs st ! tripsRef st)"
    by (simp add: list_all_iff nth_append)
  then show ?thesis using r by (simp add: trips_of_def push_trip_def)
qed

lemma trips_of_reset: "trips_of (reset_trips st) = [] \<and> totalVar (reset_trips st) = Fin 0"
  by (simp add: trips_of_def reset_trips_def)

text \<open>
  The returned array is a snapshot: what the calculator does afterwards, appending a trip
  or clearing, changes the trips of the calculator as on the state without a store, and
  leaves the returned array with the trips it was given.
\<close>

theorem getTrips_is_a_snapshot:
  assumes "store_ok st" "getTrips st = Some (r, st')"
  shows "trips_of (push_trip t st') = trips_of st @ [t]
         \<and> map (\<lambda>i. objs (push_trip t st') ! i) (arrs (push_trip t st') ! r) = trips_of st
         \<and> trips_of (reset_trips st') = []
         \<and> map (\<lambda>i. objs (reset_trips st') ! i) (arrs (reset_trips st') ! r) = trips_of st"
proof -
  have r: "tripsRef st < length (arrs st)" using assms(1) by (simp add: store_ok_def)
  have st': "st' = st\<lparr>arrs := arrs st @ [arrs st ! tripsRef st]\<rparr>"
    and rr: "r = length (arrs st)"
    using assms(2) r by (simp_all add: getTrips_def)
  have a: "list_all (\<lambda>i. i < length (objs st)) (arrs st ! tripsRef st)"
    using assms(1) r by (simp add: store_ok_def list_all_length)
  have ok': "store_ok st'"
    using assms(1) a by (simp add: st' store_ok_def)
  have t': "trips_of st' = trips_of st" using r by (simp add: st' trips_of_def nth_append)
  have 1: "trips_of (push_trip t st') = trips_of st @ [t]"
    using trips_of_push[OF ok'] t' by simp
  have m: "map (\<lambda>i. (objs st @ [t]) ! i) (arrs st ! tripsRef st)
           = map (\<lambda>i. objs st ! i) (arrs st ! tripsRef st)"
    using a by (simp add: list_all_iff nth_append)
  have 2: "map (\<lambda>i. objs (push_trip t st') ! i) (arrs (push_trip t st') ! r) = trips_of st"
    using r m by (simp add: st' rr push_trip_def trips_of_def nth_append)
  have 3: "trips_of (reset_trips st') = []" by (simp add: trips_of_reset)
  have 4: "map (\<lambda>i. objs (reset_trips st') ! i) (arrs (reset_trips st') ! r) = trips_of st"
    by (simp add: st' rr reset_trips_def trips_of_def nth_append)
  from 1 2 3 4 show ?thesis by simp
qed

theorem getTrips_is_a_snapshot_witness:
  "store_ok \<lparr>objs = [\<lparr>trip_date = ''11/2/2026'', trip_vehicle = ''car'',
                trip_distance = Num (Fin 100), trip_emissions = Num (Fin 21)\<rparr>],
             arrs = [[0]], tripsRef = 0, totalVar = Fin 21\<rparr>
   \<and> getTrips \<lparr>objs = [\<lparr>trip_date = ''11/2/2026'', trip_vehicle = ''car'',
                trip_distance = Num (Fin 100), trip_emissions = Num (Fin 21)\<rparr>],
             arrs = [[0]], tripsRef = 0, totalVar = Fin 21\<rparr>
     = Some (1, \<lparr>objs = [\<lparr>trip_date = ''11/2/2026'', trip_vehicle = ''car'',
                trip_distance = Num (Fin 100), trip_emissions = Num (Fin 21)\<rparr>],
             arrs = [[0], [0]], tripsRef = 0, totalVar = Fin 21\<rparr>)
   \<and> trips_of (reset_trips \<lparr>objs = [\<lparr>trip_date = ''11/2/2026'', trip_vehicle = ''car'',
                trip_distance = Num (Fin 100), trip_emissions = Num (Fin 21)\<rparr>],
             arrs = [[0], [0]], tripsRef = 0, totalVar = Fin 21\<rparr>) = []
   \<and> map (\<lambda>i. objs (reset_trips \<lparr>objs = [\<lparr>trip_date = ''11/2/2026'',
                trip_vehicle = ''car'', trip_distance = Num (Fin 100),
                trip_emissions = Num (Fin 21)\<rparr>],
             arrs = [[0], [0]], tripsRef = 0, totalVar = Fin 21\<rparr>) ! i)
         (arrs (reset_trips \<lparr>objs = [\<lparr>trip_date = ''11/2/2026'',
                trip_vehicle = ''car'', trip_distance = Num (Fin 100),
                trip_emissions = Num (Fin 21)\<rparr>],
             arrs = [[0], [0]], tripsRef = 0, totalVar = Fin 21\<rparr>) ! 1)
     = [\<lparr>trip_date = ''11/2/2026'', trip_vehicle = ''car'',
                trip_distance = Num (Fin 100), trip_emissions = Num (Fin 21)\<rparr>]"
  using getTrips_is_a_snapshot[of
      "\<lparr>objs = [\<lparr>trip_date = ''11/2/2026'', trip_vehicle = ''car'',
                trip_distance = Num (Fin 100), trip_emissions = Num (Fin 21)\<rparr>],
             arrs = [[0]], tripsRef = 0, totalVar = Fin 21\<rparr>"
      1
      "\<lparr>objs = [\<lparr>trip_date = ''11/2/2026'', trip_vehicle = ''car'',
                trip_distance = Num (Fin 100), trip_emissions = Num (Fin 21)\<rparr>],
             arrs = [[0], [0]], tripsRef = 0, totalVar = Fin 21\<rparr>"]
  by (simp add: store_ok_def getTrips_def trips_of_def reset_trips_def)

section \<open>Properties of the carousel\<close>

lemma js_rem_nonneg: "0 \<le> n \<Longrightarrow> 0 < d \<Longrightarrow> js_rem n d = n mod d"
  by (cases "n = 0") (simp_all add: js_rem_def)

lemma js_rem_neg: "n < 0 \<Longrightarrow> 0 < d \<Longrightarrow> js_rem n d = - ((- n) mod d)"
  by (simp add: js_rem_def)

lemma js_rem_wrap:
  assumes "0 < d"
  shows "js_rem (js_rem n d + d) d = n mod d"
proof (cases "0 \<le> n")
  case True
  then have "js_rem n d = n mod d" using assms by (rule js_rem_nonneg)
  moreover have "0 \<le> n mod d + d" using assms by simp
  ultimately show ?thesis using assms by (simp add: js_rem_nonneg)
next
  case False
  then have r: "js_rem n d = - ((- n) mod d)" using assms by (simp add: js_rem_neg)
  have "(- n) mod d < d" using assms by simp
  then have "0 \<le> - ((- n) mod d) + d" by simp
  then have "js_rem (js_rem n d + d) d = (- ((- n) mod d) + d) mod d"
    using assms by (simp add: r js_rem_nonneg)
  also have "\<dots> = (- ((- n) mod d)) mod d" by simp
  also have "\<dots> = (- (- n)) mod d" by (simp add: mod_minus_eq)
  finally show ?thesis by simp
qed

text \<open>
  Claim C2. On a carousel with at least one slide, \<open>goTo(n)\<close> for every integer \<open>n\<close>, the
  negative ones included, sets the index to \<open>((n % count) + count) % count\<close>, which is the
  residue of \<open>n\<close> modulo \<open>count\<close> between 0 and \<open>count - 1\<close>. So after \<open>goTo\<close>, \<open>next\<close> and
  \<open>prev\<close>, and after the start, the index is in that range.
\<close>

theorem goTo_wraps:
  assumes "0 < count c"
  shows "(\<exists>c'. goTo n c = Inr c'
            \<and> current c' = js_rem (js_rem n (int (count c)) + int (count c)) (int (count c))
            \<and> current c' = n mod int (count c)
            \<and> 0 \<le> current c' \<and> current c' < int (count c) \<and> count c' = count c)
         \<and> (\<exists>c'. next_slide c = Inr c' \<and> current c' = (current c + 1) mod int (count c)
            \<and> 0 \<le> current c' \<and> current c' < int (count c) \<and> count c' = count c)
         \<and> (\<exists>c'. prev_slide c = Inr c' \<and> current c' = (current c - 1) mod int (count c)
            \<and> 0 \<le> current c' \<and> current c' < int (count c) \<and> count c' = count c)
         \<and> heroCarousel (count c) = Inr \<lparr>current = 0, count = count c\<rparr>"
  using assms
  by (simp add: goTo_def next_slide_def prev_slide_def heroCarousel_def js_rem_wrap)

theorem goTo_wraps_witness:
  "0 < count \<lparr>current = 0, count = 3\<rparr>
   \<and> goTo (- 1) \<lparr>current = 0, count = 3\<rparr> = Inr \<lparr>current = 2, count = 3\<rparr>
   \<and> prev_slide \<lparr>current = 0, count = 3\<rparr> = Inr \<lparr>current = 2, count = 3\<rparr>
   \<and> next_slide \<lparr>current = 2, count = 3\<rparr> = Inr \<lparr>current = 0, count = 3\<rparr>"
  using goTo_wraps[of "\<lparr>current = 0, count = 3\<rparr>" "- 1"]
    goTo_wraps[of "\<lparr>current = 2, count = 3\<rparr>" 0]
  by (auto simp: goTo_def next_slide_def prev_slide_def)

end
